theory Spec2Isabelle
  imports Main "HOL-Library.Word" "HOL-Library.Signed_Division"
begin

section \<open>The Perforce bridge: \<^verbatim>\<open>libs/go/p4lib/p4_cgo_bridge.cc\<close>\<close>

text \<open>
  The bridge runs Perforce commands for a Go caller. It keeps two pools of idle
  \<^verbatim>\<open>ClientApi\<close> connections, leases one per attempt, runs the command with a
  \<^verbatim>\<open>ClientCb\<close> as output sink, and loops while the connection is found dropped.

  Conventions of the embedding.
  \<^item> A \<^verbatim>\<open>strview\<close> (pointer and length) is the list of the bytes it views.
  \<^item> A string with a length (\<^verbatim>\<open>std::string\<close>, \<^verbatim>\<open>StrBuf\<close>, \<^verbatim>\<open>StrPtr\<close>) is
    the list of its bytes and may hold a zero byte. Read through a \<^verbatim>\<open>const char*\<close>
    (\<^verbatim>\<open>c_str()\<close>, \<^verbatim>\<open>Text()\<close> without \<^verbatim>\<open>Length()\<close>) it is \<open>c_str\<close> of
    it: the bytes before the first zero byte.
  \<^item> The Perforce client library and the clock are not part of the repository.
    They are a parameter \<open>bk\<close> of every function that calls them: a record of
    functions of a tick, the number of library and clock calls made so far, kept in
    the state. Nothing is assumed about these functions.
  \<^item> The critical sections of the pool are atomic steps on the state; a call of
    \<^verbatim>\<open>p4runcb\<close> is followed on its own thread.
  \<^item> \<^verbatim>\<open>int init_us\<close> is a 32-bit word: the only arithmetic that can leave the
    range of \<^verbatim>\<open>int\<close> is the accumulation of elapsed times. The other
    \<^verbatim>\<open>int\<close> values (lengths, counts, ids) are integers.
  \<^item> Identifiers of Isabelle cannot end with an underscore: the members
    \<^verbatim>\<open>clients_\<close>, \<^verbatim>\<open>cbid_\<close> and \<^verbatim>\<open>input_\<close> are \<open>m_clients\<close>,
    \<open>m_cbid\<close> and \<open>m_input\<close>.
\<close>

subsection \<open>Strings and views (\<^verbatim>\<open>p4_cgo_bridge.h\<close>)\<close>

type_synonym strview = string

definition len :: "strview \<Rightarrow> int" where
  "len v = int (length v)"

definition c_str :: "string \<Rightarrow> string" where
  "c_str s = takeWhile (\<lambda>ch. ch \<noteq> CHR 0x00) s"

subsection \<open>The Perforce client library, as the bridge uses it\<close>

text \<open>
  Modelled from the spec: the types \<^verbatim>\<open>Error\<close>, \<^verbatim>\<open>ClientApi\<close>,
  \<^verbatim>\<open>StrBuf\<close> and \<^verbatim>\<open>StrDict\<close> of \<^verbatim>\<open>p4/clientapi.h\<close> are not declared
  in the repository. The spec lists what the bridge consumes of them: an error object
  testable for presence and formattable to text; set and get user and password; set
  charset and protocol; set an unnamed variable from a byte range; detect dropped; a
  buffer to append to and terminate; a record numbered from 0. What a setter stores
  is what the getter returns, and nothing else changes.

  \<^verbatim>\<open>Error\<close>: whether \<^verbatim>\<open>Test()\<close> holds and what \<^verbatim>\<open>Fmt\<close> appends.
\<close>

record Error =
  Test :: bool
  Fmt :: string

text \<open>
  \<^verbatim>\<open>ClientApi\<close>: the settings the bridge writes and reads. \<open>vars\<close> are the unnamed
  variables set since the last command, in the order of the \<^verbatim>\<open>SetVar\<close> calls.
\<close>

record ClientApi =
  charset :: string
  protocol :: "(string \<times> string) list"
  GetUser :: string
  GetPassword :: string
  vars :: "string list"
  Dropped :: bool

definition SetCharset :: "string \<Rightarrow> ClientApi \<Rightarrow> ClientApi" where
  "SetCharset cs c = c\<lparr>charset := cs\<rparr>"

definition SetUser :: "string \<Rightarrow> ClientApi \<Rightarrow> ClientApi" where
  "SetUser u c = c\<lparr>GetUser := u\<rparr>"

definition SetPassword :: "string \<Rightarrow> ClientApi \<Rightarrow> ClientApi" where
  "SetPassword pw c = c\<lparr>GetPassword := pw\<rparr>"

text \<open>\<^verbatim>\<open>SetVar(StrRef::Null(), v)\<close>: one more unnamed variable.\<close>

definition SetVar :: "string \<Rightarrow> ClientApi \<Rightarrow> ClientApi" where
  "SetVar v c = c\<lparr>vars := vars c @ [v]\<rparr>"

text \<open>
  \<^verbatim>\<open>StrBuf\<close>: its bytes, and whether a terminator is known to follow them
  (\<^verbatim>\<open>Terminate\<close> writes one and does not count it in the length).
\<close>

record StrBuf =
  Text :: string
  terminated :: bool

definition Append :: "string \<Rightarrow> StrBuf \<Rightarrow> StrBuf" where
  "Append bytes b = \<lparr>Text = Text b @ bytes, terminated = False\<rparr>"

definition Terminate :: "StrBuf \<Rightarrow> StrBuf" where
  "Terminate b = b\<lparr>terminated := True\<rparr>"

text \<open>
  \<^verbatim>\<open>StrDict\<close>: the variables in the order \<^verbatim>\<open>GetVar(i, var, val)\<close> numbers them;
  \<^verbatim>\<open>GetVar\<close> returns false from the first index that has no variable.
\<close>

type_synonym StrDict = "(string \<times> string) list"

definition GetVar :: "StrDict \<Rightarrow> nat \<Rightarrow> (string \<times> string) option" where
  "GetVar varList i = (if i < length varList then Some (varList ! i) else None)"

text \<open>
  Modelled from the spec: the constant \<^verbatim>\<open>P4Tag::v_specFormatted\<close> of the client
  library is not declared in the repository; the spec names the key
  \<^verbatim>\<open>specFormatted\<close>.
\<close>

definition v_specFormatted :: string where
  "v_specFormatted = ''specFormatted''"

subsection \<open>The callbacks exported by Go\<close>

datatype event =
    gop4apiHandleError int string
  | gop4apiOutputBinary int string
  | gop4apiOutputText int string
  | gop4apiOutputInfo int "8 word" string
  | gop4apiOutputStat int int "strview list" "strview list"
  | gop4apiRetry int string string

fun is_retry :: "event \<Rightarrow> bool" where
  "is_retry (gop4apiRetry cbid context err) = True"
| "is_retry e = False"

subsection \<open>\<^verbatim>\<open>ClientCb\<close>\<close>

record ClientCb =
  m_cbid :: int
  m_input :: strview

definition HandleError :: "ClientCb \<Rightarrow> Error \<Rightarrow> event list" where
  "HandleError this err =
     (if Test err then [gop4apiHandleError (m_cbid this) (Fmt err)] else [])"

definition HandleError_string :: "ClientCb \<Rightarrow> string \<Rightarrow> event list" where
  "HandleError_string this msg = [gop4apiHandleError (m_cbid this) msg]"

text \<open>\<^verbatim>\<open>Retry\<close> takes a pointer to an error: \<open>None\<close> is the null pointer.\<close>

definition Retry :: "ClientCb \<Rightarrow> string \<Rightarrow> Error option \<Rightarrow> event list" where
  "Retry this context err =
     (let msg = (case err of Some e \<Rightarrow> Fmt e | None \<Rightarrow> [])
      in [gop4apiRetry (m_cbid this) (c_str context) msg])"

definition OutputBinary :: "ClientCb \<Rightarrow> string \<Rightarrow> event list" where
  "OutputBinary this data = [gop4apiOutputBinary (m_cbid this) data]"

definition OutputText :: "ClientCb \<Rightarrow> string \<Rightarrow> event list" where
  "OutputText this data = [gop4apiOutputText (m_cbid this) data]"

definition OutputInfo :: "ClientCb \<Rightarrow> char \<Rightarrow> string \<Rightarrow> event list" where
  "OutputInfo this level data =
     [gop4apiOutputInfo (m_cbid this) (of_char level - of_char CHR ''0'') data]"

text \<open>
  The loop of \<^verbatim>\<open>OutputStat\<close>, from index \<open>i\<close> with the keys and values pushed
  so far.
\<close>

function OutputStat_loop ::
  "StrDict \<Rightarrow> nat \<Rightarrow> strview list \<Rightarrow> strview list \<Rightarrow> strview list \<times> strview list" where
  "OutputStat_loop varList i keys vals =
     (case GetVar varList i of
        None \<Rightarrow> (keys, vals)
      | Some (var, val) \<Rightarrow>
          if var = ''func'' \<or> var = v_specFormatted
          then OutputStat_loop varList (i + 1) keys vals
          else OutputStat_loop varList (i + 1) (keys @ [var]) (vals @ [val]))"
  by pat_completeness auto
termination
  by (relation "measure (\<lambda>(varList, i, keys, vals). length varList - i)")
     (auto simp: GetVar_def split: if_splits)

definition OutputStat :: "ClientCb \<Rightarrow> StrDict \<Rightarrow> event list" where
  "OutputStat this varList =
     (case OutputStat_loop varList 0 [] [] of
        (keys, vals) \<Rightarrow> [gop4apiOutputStat (m_cbid this) (int (length keys)) keys vals])"

definition InputData :: "ClientCb \<Rightarrow> StrBuf \<Rightarrow> StrBuf" where
  "InputData this buf =
     (if len (m_input this) > 0 then Terminate (Append (m_input this) buf) else buf)"

text \<open>
  What the library does on its sink while a command runs: a sequence of calls of
  the \<^verbatim>\<open>ClientUser\<close> methods that \<^verbatim>\<open>ClientCb\<close> overrides. Each call but
  \<^verbatim>\<open>InputData\<close> makes \<^verbatim>\<open>ClientCb\<close> deliver callbacks to Go;
  \<^verbatim>\<open>InputData\<close> hands the buffer it returns back to the library, which gets the
  sink with its input as an argument of \<open>Run\<close>.
\<close>

datatype sink_call =
    Call_HandleError Error
  | Call_OutputBinary string
  | Call_OutputText string
  | Call_OutputInfo char string
  | Call_OutputStat StrDict
  | Call_InputData StrBuf

fun dispatch :: "ClientCb \<Rightarrow> sink_call \<Rightarrow> event list" where
  "dispatch this (Call_HandleError err) = HandleError this err"
| "dispatch this (Call_OutputBinary data) = OutputBinary this data"
| "dispatch this (Call_OutputText data) = OutputText this data"
| "dispatch this (Call_OutputInfo level data) = OutputInfo this level data"
| "dispatch this (Call_OutputStat varList) = OutputStat this varList"
| "dispatch this (Call_InputData buf) = []"

subsection \<open>The library and the clock as a parameter\<close>

text \<open>
  Each function takes the tick of the call. \<open>now\<close> is the reading of
  \<^verbatim>\<open>high_resolution_clock\<close> in its own unit (the source divides a difference
  by 1000 and adds it to a count of microseconds). \<open>new_ClientApi\<close> is the object
  that \<^verbatim>\<open>new ClientApi()\<close> yields. \<open>Init\<close> and \<open>Final\<close> yield their error
  object. \<open>Run\<close> yields the calls made on the sink and the client as the command
  leaves it.

  Modelled from the spec: \<^verbatim>\<open>ClientApi::Final\<close> belongs to the library. The spec
  has it a teardown that reports an error object, after which the dropped session is
  still one that the pool refuses; so \<open>Final\<close> yields the error and leaves what
  \<^verbatim>\<open>Dropped()\<close> answers as the command left it.
\<close>

record backend =
  now :: "nat \<Rightarrow> int"
  new_ClientApi :: "nat \<Rightarrow> ClientApi"
  Init :: "nat \<Rightarrow> ClientApi \<Rightarrow> Error"
  Run :: "nat \<Rightarrow> ClientApi \<Rightarrow> string \<Rightarrow> ClientCb \<Rightarrow> sink_call list \<times> ClientApi"
  Final :: "nat \<Rightarrow> ClientApi \<Rightarrow> Error"

subsection \<open>\<^verbatim>\<open>Pool\<close>, \<^verbatim>\<open>TagPool\<close> and the state of the process\<close>

definition kMaxClients :: int where
  "kMaxClients = 16"

record Pool =
  m_clients :: "ClientApi list"

text \<open>
  The state: the two static pools, the callbacks delivered to Go so far, the
  clients destroyed so far, the lines written to \<^verbatim>\<open>std::cerr\<close>, and the tick.
\<close>

record state =
  defaultPool :: Pool
  tagPool :: Pool
  emitted :: "event list"
  deleted :: "ClientApi list"
  cerr :: "string list"
  tick :: nat

definition bump :: "state \<Rightarrow> state" where
  "bump s = s\<lparr>tick := Suc (tick s)\<rparr>"

definition emit :: "event list \<Rightarrow> state \<Rightarrow> state" where
  "emit es s = s\<lparr>emitted := emitted s @ es\<rparr>"

text \<open>\<open>tag\<close> selects \<^verbatim>\<open>tagPool\<close>, whose dynamic type is \<^verbatim>\<open>TagPool\<close>.\<close>

definition pool :: "bool \<Rightarrow> state \<Rightarrow> Pool" where
  "pool tag s = (if tag then tagPool s else defaultPool s)"

definition set_clients :: "bool \<Rightarrow> ClientApi list \<Rightarrow> state \<Rightarrow> state" where
  "set_clients tag q s =
     (if tag then s\<lparr>tagPool := (tagPool s)\<lparr>m_clients := q\<rparr>\<rparr>
      else s\<lparr>defaultPool := (defaultPool s)\<lparr>m_clients := q\<rparr>\<rparr>)"

definition SetProtocol :: "bool \<Rightarrow> ClientApi \<Rightarrow> ClientApi" where
  "SetProtocol tag c = (if tag then c\<lparr>protocol := protocol c @ [(''tag'', [])]\<rparr> else c)"

text \<open>
  \<^verbatim>\<open>Pool::Client(ns, error, fresh)\<close>. The pointers \<open>ns\<close> and \<open>error\<close> may be
  null (\<open>None\<close>); the result is the client (\<open>None\<close> for \<^verbatim>\<open>nullptr\<close>) and what
  the three pointers hold afterwards. When \<^verbatim>\<open>Init\<close> fails the message gets
  \<^verbatim>\<open>msg.Text()\<close>, a \<^verbatim>\<open>const char*\<close>, appended, and the new client is
  destroyed with the \<^verbatim>\<open>unique_ptr\<close> that holds it.
\<close>

definition Client ::
  "backend \<Rightarrow> bool \<Rightarrow> 32 word option \<Rightarrow> string option \<Rightarrow> bool \<Rightarrow> state \<Rightarrow>
   (ClientApi option \<times> 32 word option \<times> string option \<times> bool) \<times> state" where
  "Client bk tag ns error fresh s0 =
     (let start = now bk (tick s0); s1 = bump s0 in
      case m_clients (pool tag s1) of
        client # rest \<Rightarrow> ((Some client, ns, error, fresh), set_clients tag rest s1)
      | [] \<Rightarrow>
          (let client = SetProtocol tag (SetCharset ''utf8'' (new_ClientApi bk (tick s1)));
               s2 = bump s1;
               err = Init bk (tick s2) client;
               s3 = bump s2
           in if Test err then
                (let msg = Fmt err; s4 = s3\<lparr>deleted := deleted s3 @ [client]\<rparr> in
                 case error of
                   Some e \<Rightarrow>
                     ((None, ns, Some (''error initializing client: '' @ c_str msg), fresh), s4)
                 | None \<Rightarrow>
                     ((None, ns, None, fresh),
                      s4\<lparr>cerr := cerr s4 @ [''error initializing client: '' @ c_str msg]\<rparr>))
              else
                (case ns of
                   Some n \<Rightarrow>
                     (let stop = now bk (tick s3); s4 = bump s3 in
                      ((Some client, Some (n + word_of_int ((stop - start) sdiv 1000)), error, True),
                       s4))
                 | None \<Rightarrow> ((Some client, None, error, True), s3))))"

text \<open>The deleter of the lease: back of the queue, or destroyed.\<close>

definition deleter :: "bool \<Rightarrow> ClientApi \<Rightarrow> state \<Rightarrow> state" where
  "deleter tag c s =
     (if \<not> Dropped c \<and> int (length (m_clients (pool tag s))) < kMaxClients
      then set_clients tag (m_clients (pool tag s) @ [c]) s
      else s\<lparr>deleted := deleted s @ [c]\<rparr>)"

subsection \<open>\<^verbatim>\<open>p4runcb\<close>\<close>

text \<open>
  A read outside the memory of the packed arguments or of the length table is
  undefined in the source. The model stops there with \<open>Undefined\<close>; it stops with
  \<open>OutOfFuel\<close> when the loop has not ended after the given number of iterations.
\<close>

datatype abort = OutOfFuel | Undefined

text \<open>
  The loop that sets the arguments, from index \<open>i\<close> with offset \<open>next\<close>:
  \<^verbatim>\<open>args[i]\<close> bytes of \<^verbatim>\<open>joined.p\<close> from \<^verbatim>\<open>next\<close>.
\<close>

function set_args ::
  "strview \<Rightarrow> int list \<Rightarrow> int \<Rightarrow> int \<Rightarrow> int \<Rightarrow> ClientApi \<Rightarrow> ClientApi option" where
  "set_args joined args argc i next c =
     (if i < argc then
        (if 0 \<le> i \<and> nat i < length args then
           (let n = args ! nat i in
            if 0 \<le> next \<and> 0 \<le> n \<and> next + n \<le> len joined
            then set_args joined args argc (i + 1) (next + n)
                   (SetVar (take (nat n) (drop (nat next) joined)) c)
            else None)
         else None)
      else Some c)"
  by pat_completeness auto
termination
  by (relation "measure (\<lambda>(joined, args, argc, i, next, c). nat (argc - i))") auto

text \<open>
  The locals of \<^verbatim>\<open>p4runcb\<close> that stay as they are through the loop.
\<close>

record frame =
  cb :: ClientCb
  cmdstr :: string
  userStr :: string
  passwdStr :: string
  joined :: strview
  argc :: int
  args :: "int list"
  tagged :: bool

definition override :: "frame \<Rightarrow> bool" where
  "override f = (userStr f \<noteq> [] \<and> passwdStr f \<noteq> [])"

text \<open>How an iteration of the loop ends.\<close>

datatype ctl = Return | Break | Continue

text \<open>
  The body of the loop from \<^verbatim>\<open>c->Run\<close> to the end of the scope of the lease,
  for the client \<open>c\<close> as the arguments left it and the captured credentials: the
  way the iteration ends, the client as the deleter will get it, and the state.
\<close>

definition run_cmd ::
  "backend \<Rightarrow> frame \<Rightarrow> string \<Rightarrow> string \<Rightarrow> ClientApi \<Rightarrow> state \<Rightarrow> ctl \<times> ClientApi \<times> state" where
  "run_cmd bk f origUser origPasswd c s0 =
     (case Run bk (tick s0) c (c_str (cmdstr f)) (cb f) of
        (calls, c3) \<Rightarrow>
          (let s1 = emit (concat (map (dispatch (cb f)) calls)) (bump s0) in
           if \<not> Dropped c3 then
             (Break,
              (if override f
               then SetPassword (c_str origPasswd) (SetUser (c_str origUser) c3)
               else c3),
              s1)
           else
             (let err = Final bk (tick s1) c3; s2 = bump s1 in
              (Continue, c3,
               (if Test err
                then emit (Retry (cb f) ''p4 connection dropped: '' (Some err)) s2
                else s2)))))"

text \<open>
  The body of the loop from the lease \<open>c\<close> on. \<^verbatim>\<open>origUser\<close> and
  \<^verbatim>\<open>origPasswd\<close> are assigned from \<^verbatim>\<open>GetUser().Text()\<close> and
  \<^verbatim>\<open>GetPassword().Text()\<close>, each a \<^verbatim>\<open>const char*\<close>.
\<close>

definition run_on ::
  "backend \<Rightarrow> frame \<Rightarrow> ClientApi \<Rightarrow> state \<Rightarrow> abort + (ctl \<times> ClientApi \<times> state)" where
  "run_on bk f c s0 =
     (let origUser = (if override f then c_str (GetUser c) else []);
          origPasswd = (if override f then c_str (GetPassword c) else []);
          c1 = (if override f
                then SetPassword (c_str (passwdStr f)) (SetUser (c_str (userStr f)) c)
                else c)
      in case set_args (joined f) (args f) (argc f) 0 0 c1 of
           None \<Rightarrow> Inl Undefined
         | Some c2 \<Rightarrow> Inr (run_cmd bk f origUser origPasswd c2 s0))"

text \<open>
  What a local variable holds after a call that got a pointer to it (\<open>None\<close>
  where the call got a null pointer).
\<close>

definition after :: "'a \<Rightarrow> 'a option \<Rightarrow> 'a" where
  "after old r = (case r of None \<Rightarrow> old | Some v \<Rightarrow> v)"

text \<open>One iteration, from \<^verbatim>\<open>pool.Client\<close> to the release of the lease.\<close>

definition attempt ::
  "backend \<Rightarrow> frame \<Rightarrow> 32 word \<Rightarrow> state \<Rightarrow> abort + (ctl \<times> 32 word \<times> state)" where
  "attempt bk f init_us s0 =
     (case Client bk (tagged f) (Some init_us) (Some []) False s0 of
        ((None, ns, errmsg, fresh), s1) \<Rightarrow>
          Inr (Return, after init_us ns,
               emit (HandleError_string (cb f) (after [] errmsg)) s1)
      | ((Some c, ns, errmsg, fresh), s1) \<Rightarrow>
          (case run_on bk f c s1 of
             Inl a \<Rightarrow> Inl a
           | Inr (k, c', s2) \<Rightarrow> Inr (k, after init_us ns, deleter (tagged f) c' s2)))"

fun p4runcb_loop ::
  "nat \<Rightarrow> backend \<Rightarrow> frame \<Rightarrow> 32 word \<Rightarrow> state \<Rightarrow> abort + (32 word \<times> state)" where
  "p4runcb_loop 0 bk f init_us s = Inl OutOfFuel"
| "p4runcb_loop (Suc n) bk f init_us s =
     (case attempt bk f init_us s of
        Inl a \<Rightarrow> Inl a
      | Inr (Continue, init_us', s') \<Rightarrow> p4runcb_loop n bk f init_us' s'
      | Inr (k, init_us', s') \<Rightarrow> Inr (init_us', s'))"

definition p4runcb ::
  "nat \<Rightarrow> backend \<Rightarrow> strview \<Rightarrow> strview \<Rightarrow> strview \<Rightarrow> strview \<Rightarrow> strview \<Rightarrow> int \<Rightarrow>
   int list \<Rightarrow> int \<Rightarrow> bool \<Rightarrow> state \<Rightarrow> abort + (32 word \<times> state)" where
  "p4runcb fuel bk cmd user passwd input joined' argc' argv cbid tag s =
     p4runcb_loop fuel bk
       \<lparr>cb = \<lparr>m_cbid = cbid, m_input = input\<rparr>, cmdstr = cmd, userStr = user,
        passwdStr = passwd, joined = joined', argc = argc', args = argv, tagged = tag\<rparr>
       0 s"

subsection \<open>Notions used in the properties\<close>

text \<open>The invariant of a pool: at most \<open>kMaxClients\<close> idle clients, none dropped.\<close>

definition pool_inv :: "Pool \<Rightarrow> bool" where
  "pool_inv P =
     (int (length (m_clients P)) \<le> kMaxClients \<and> list_all (\<lambda>c. \<not> Dropped c) (m_clients P))"

definition creds :: "ClientApi \<Rightarrow> string \<times> string" where
  "creds c = (GetUser c, GetPassword c)"

text \<open>
  The credentials that the restore of an override sets, when \<open>cr\<close> were those of
  the client at its lease: what \<^verbatim>\<open>Text()\<close> read of them.
\<close>

definition restored :: "string \<times> string \<Rightarrow> string \<times> string" where
  "restored cr = (c_str (fst cr), c_str (snd cr))"

text \<open>
  Whether the reads of the argument loop stay inside the length table and the packed
  buffer: the table has \<^verbatim>\<open>argc\<close> entries or more, none of the first
  \<^verbatim>\<open>argc\<close> is negative, and their sum is within the buffer.
\<close>

definition in_bounds :: "strview \<Rightarrow> int list \<Rightarrow> int \<Rightarrow> bool" where
  "in_bounds buf lens n =
     (nat n \<le> length lens \<and> list_all (\<lambda>m. 0 \<le> m) (take (nat n) lens) \<and>
      sum_list (take (nat n) lens) \<le> len buf)"

text \<open>
  The slices of the packed buffer that the length table cuts: the \<open>k\<close>-th starts at
  the sum of the first \<open>k\<close> lengths and has the \<open>k\<close>-th length.
\<close>

definition slices :: "strview \<Rightarrow> int list \<Rightarrow> int \<Rightarrow> string list" where
  "slices buf lens n =
     map (\<lambda>k. take (nat (lens ! k)) (drop (nat (sum_list (take k lens))) buf)) [0 ..< nat n]"

text \<open>
  The client that \<^verbatim>\<open>Pool::Client\<close> constructs when it is called in state \<open>s\<close>
  and finds no idle client, and the error object of its \<^verbatim>\<open>Init\<close>. The clock is
  read at tick \<open>tick s\<close>, the client is made at the next tick and initialised at
  the one after.
\<close>

definition fresh_client :: "backend \<Rightarrow> bool \<Rightarrow> state \<Rightarrow> ClientApi" where
  "fresh_client bk tag s =
     SetProtocol tag (SetCharset ''utf8'' (new_ClientApi bk (Suc (tick s))))"

definition init_error :: "backend \<Rightarrow> bool \<Rightarrow> state \<Rightarrow> Error" where
  "init_error bk tag s = Init bk (Suc (Suc (tick s))) (fresh_client bk tag s)"


definition elapsed_us :: "backend \<Rightarrow> state \<Rightarrow> int" where
  "elapsed_us bk s = (now bk (tick s + 3) - now bk (tick s)) sdiv 1000"



text \<open>
  A sequence of acquisitions and releases on one pool, with the clients that
  were taken from the idle queue and those that were put on it, each in order.
  An acquisition called with \<open>fresh = False\<close> took its client from the queue when
  it leaves \<open>fresh\<close> as it was; a release put its client on the queue when the
  queue is not what it was.
\<close>

datatype pool_op = Acquire | Release ClientApi

fun pool_ops ::
  "backend \<Rightarrow> bool \<Rightarrow> pool_op list \<Rightarrow> state \<Rightarrow> ClientApi list \<times> ClientApi list \<times> state" where
  "pool_ops bk tag [] s = ([], [], s)"
| "pool_ops bk tag (Acquire # ops) s =
     (case Client bk tag None None False s of
        ((r, ns, error, fresh), s1) \<Rightarrow>
          (case pool_ops bk tag ops s1 of
             (taken, put, s2) \<Rightarrow>
               ((case r of Some c \<Rightarrow> if fresh then [] else [c] | None \<Rightarrow> []) @ taken, put, s2)))"
| "pool_ops bk tag (Release c # ops) s =
     (case pool_ops bk tag ops (deleter tag c s) of
        (taken, put, s2) \<Rightarrow>
          (taken,
           (if m_clients (pool tag (deleter tag c s)) = m_clients (pool tag s) then [] else [c]) @ put,
           s2))"

subsection \<open>Concrete clients, libraries and states\<close>

definition no_error :: Error where
  "no_error = \<lparr>Test = False, Fmt = []\<rparr>"

definition broken_pipe :: Error where
  "broken_pipe = \<lparr>Test = True, Fmt = ''TCP receive failed.''\<rparr>"

definition alice :: ClientApi where
  "alice = \<lparr>charset = ''utf8'', protocol = [], GetUser = ''alice'', GetPassword = ''secret'',
            vars = [], Dropped = False\<rparr>"


definition bob :: ClientApi where
  "bob = alice\<lparr>GetUser := ''bob'', GetPassword := ''hunter2''\<rparr>"

text \<open>The state of the process at its start, and one with \<open>alice\<close> idle.\<close>

definition s_start :: state where
  "s_start = \<lparr>defaultPool = \<lparr>m_clients = []\<rparr>, tagPool = \<lparr>m_clients = []\<rparr>,
              emitted = [], deleted = [], cerr = [], tick = 0\<rparr>"

definition s_idle :: state where
  "s_idle = s_start\<lparr>defaultPool := \<lparr>m_clients = [alice]\<rparr>\<rparr>"

text \<open>
  A library whose clock advances by 1000 units at each call and which runs every
  command without output; one whose commands print the user they run as; one whose
  commands print their arguments; one whose connection is found dropped after the commands run
  before tick \<open>5\<close>, with a \<^verbatim>\<open>Final\<close> that reports nothing; the same with a
  \<^verbatim>\<open>Final\<close> that reports an error; and one that cannot connect.
\<close>

definition bk_ok :: backend where
  "bk_ok = \<lparr>now = (\<lambda>t. 1000 * int t),
            new_ClientApi = (\<lambda>t. alice\<lparr>charset := []\<rparr>),
            Init = (\<lambda>t c. no_error),
            Run = (\<lambda>t c cmd this. ([], c\<lparr>vars := []\<rparr>)),
            Final = (\<lambda>t c. no_error)\<rparr>"


definition bk_args :: backend where
  "bk_args = bk_ok\<lparr>Run := (\<lambda>t c cmd this. (map Call_OutputText (vars c), c\<lparr>vars := []\<rparr>))\<rparr>"

definition bk_drop :: backend where
  "bk_drop = bk_ok\<lparr>Run := (\<lambda>t c cmd this. ([], c\<lparr>vars := [], Dropped := t < 5\<rparr>))\<rparr>"

definition bk_drop_err :: backend where
  "bk_drop_err = bk_drop\<lparr>Final := (\<lambda>t c. broken_pipe)\<rparr>"

definition bk_down :: backend where
  "bk_down = bk_ok\<lparr>Init := (\<lambda>t c. \<lparr>Test = True, Fmt = ''Connect to server failed''\<rparr>)\<rparr>"

text \<open>A state whose default pool is full.\<close>

definition s_full :: state where
  "s_full = s_start\<lparr>defaultPool := \<lparr>m_clients = replicate 16 alice\<rparr>\<rparr>"

text \<open>The frame of a call of \<^verbatim>\<open>p4 info\<close>, and of one as another user.\<close>

definition f_info :: frame where
  "f_info = \<lparr>cb = \<lparr>m_cbid = 7, m_input = []\<rparr>, cmdstr = ''info'', userStr = [], passwdStr = [],
             joined = [], argc = 0, args = [], tagged = False\<rparr>"

definition f_as_bob :: frame where
  "f_as_bob = f_info\<lparr>userStr := ''bob'', passwdStr := ''hunter2''\<rparr>"

text \<open>
  The frame of a call with the arguments \<^verbatim>\<open>foo\<close>, \<^verbatim>\<open>bar\<close>, \<^verbatim>\<open>baz\<close>, and of
  one whose second length leaves the packed buffer.
\<close>

definition f_args :: frame where
  "f_args = f_info\<lparr>cmdstr := ''print'', joined := ''foobarbaz'', argc := 3, args := [3, 3, 3]\<rparr>"

definition f_short :: frame where
  "f_short = f_info\<lparr>cmdstr := ''print'', joined := ''foobar'', argc := 2, args := [3, 4]\<rparr>"


section \<open>Properties\<close>

declare OutputStat_loop.simps [simp del] set_args.simps [simp del]

lemmas model_defs = attempt_def run_on_def run_cmd_def Client_def deleter_def pool_def set_clients_def
  bump_def emit_def override_def after_def SetProtocol_def SetCharset_def SetUser_def SetPassword_def
  HandleError_string_def Retry_def c_str_def kMaxClients_def init_error_def fresh_client_def
  elapsed_us_def Let_def

subsection \<open>Strings\<close>

lemma c_str_idem: "c_str (c_str x) = c_str x"
  by (simp add: c_str_def)


subsection \<open>The pool\<close>

lemma pool_set_clients [simp]:
  "m_clients (pool tag (set_clients tag q s)) = q"
  "pool (\<not> tag) (set_clients tag q s) = pool (\<not> tag) s"
  "emitted (set_clients tag q s) = emitted s"
  "deleted (set_clients tag q s) = deleted s"
  "cerr (set_clients tag q s) = cerr s"
  "tick (set_clients tag q s) = tick s"
  by (simp_all add: pool_def set_clients_def)

lemma pool_other_fields [simp]:
  "pool tag (bump s) = pool tag s"
  "pool tag (emit es s) = pool tag s"
  "pool tag (s\<lparr>deleted := d\<rparr>) = pool tag s"
  "pool tag (s\<lparr>cerr := ce\<rparr>) = pool tag s"
  "pool tag (s\<lparr>tick := k\<rparr>) = pool tag s"
  "pool tag (s\<lparr>emitted := es\<rparr>) = pool tag s"
  by (simp_all add: pool_def bump_def emit_def)

lemma Client_idle:
  "m_clients (pool tag s) = c # rest \<Longrightarrow>
   Client bk tag ns error fresh s = ((Some c, ns, error, fresh), set_clients tag rest (bump s))"
  by (simp add: Client_def Let_def)

lemma Client_fail:
  "m_clients (pool tag s) = [] \<Longrightarrow> Test (init_error bk tag s) \<Longrightarrow>
   Client bk tag ns (Some e) fresh s =
     ((None, ns, Some (''error initializing client: '' @ c_str (Fmt (init_error bk tag s))), fresh),
      s\<lparr>deleted := deleted s @ [fresh_client bk tag s], tick := tick s + 3\<rparr>)"
  by (simp add: Client_def Let_def init_error_def fresh_client_def bump_def)

lemma Client_fail_null:
  "m_clients (pool tag s) = [] \<Longrightarrow> Test (init_error bk tag s) \<Longrightarrow>
   Client bk tag ns None fresh s =
     ((None, ns, None, fresh),
      s\<lparr>deleted := deleted s @ [fresh_client bk tag s],
        cerr := cerr s @ [''error initializing client: '' @ c_str (Fmt (init_error bk tag s))],
        tick := tick s + 3\<rparr>)"
  by (simp add: Client_def Let_def init_error_def fresh_client_def bump_def)

lemma Client_fresh:
  "m_clients (pool tag s) = [] \<Longrightarrow> \<not> Test (init_error bk tag s) \<Longrightarrow>
   Client bk tag (Some n) error fresh s =
     ((Some (fresh_client bk tag s), Some (n + word_of_int (elapsed_us bk s)), error, True),
      s\<lparr>tick := tick s + 4\<rparr>)"
  by (simp add: Client_def Let_def init_error_def fresh_client_def bump_def elapsed_us_def
      numeral_3_eq_3)

lemma Client_fresh_null:
  "m_clients (pool tag s) = [] \<Longrightarrow> \<not> Test (init_error bk tag s) \<Longrightarrow>
   Client bk tag None error fresh s =
     ((Some (fresh_client bk tag s), None, error, True), s\<lparr>tick := tick s + 3\<rparr>)"
  by (simp add: Client_def Let_def init_error_def fresh_client_def bump_def)

lemma Client_pool:
  "m_clients (pool t (snd (Client bk tag ns error fresh s))) =
     (if t = tag then tl (m_clients (pool t s)) else m_clients (pool t s))"
proof (cases "m_clients (pool tag s)")
  case (Cons c rest)
  then show ?thesis
    using pool_set_clients(2)[of tag rest "bump s"]
    by (cases "t = tag") (auto simp: Client_idle)
next
  case Nil
  then show ?thesis
    by (cases "Test (init_error bk tag s)"; cases ns; cases error)
       (auto simp: Client_fail Client_fail_null Client_fresh Client_fresh_null)
qed

lemma deleter_pool:
  "m_clients (pool t (deleter tag c s)) =
     (if t = tag \<and> \<not> Dropped c \<and> int (length (m_clients (pool tag s))) < kMaxClients
      then m_clients (pool t s) @ [c] else m_clients (pool t s))"
  using pool_set_clients(2)[of tag "m_clients (pool tag s) @ [c]" s]
  by (cases "t = tag") (auto simp: deleter_def)

lemma pool_inv_tl: "pool_inv P \<Longrightarrow> m_clients Q = tl (m_clients P) \<Longrightarrow> pool_inv Q"
  by (cases "m_clients P") (auto simp: pool_inv_def)

lemma pool_inv_cong: "pool_inv P \<Longrightarrow> m_clients Q = m_clients P \<Longrightarrow> pool_inv Q"
  by (simp add: pool_inv_def)

lemma Client_facts:
  assumes "Client bk tag ns e fr s = ((r, ns', e', fr'), s1)"
  shows "emitted s1 = emitted s"
    and "pool (\<not> tag) s1 = pool (\<not> tag) s"
    and "r = None \<Longrightarrow> pool tag s1 = pool tag s \<and> m_clients (pool tag s) = []"
    and "r = Some c \<Longrightarrow>
          m_clients (pool tag s) = c # m_clients (pool tag s1) \<or>
          (m_clients (pool tag s) = [] \<and> m_clients (pool tag s1) = [] \<and> c = fresh_client bk tag s)"
proof -
  show "emitted s1 = emitted s"
    using assms
    by (auto simp: Client_def Let_def bump_def set_clients_def
        split: list.splits if_splits option.splits)
  show "pool (\<not> tag) s1 = pool (\<not> tag) s"
    using assms
    by (auto simp: Client_def Let_def bump_def set_clients_def pool_def
        split: list.splits if_splits option.splits)
  show "r = None \<Longrightarrow> pool tag s1 = pool tag s \<and> m_clients (pool tag s) = []"
    using assms
    by (auto simp: Client_def Let_def bump_def set_clients_def pool_def
        split: list.splits if_splits option.splits)
  show "r = Some c \<Longrightarrow>
          m_clients (pool tag s) = c # m_clients (pool tag s1) \<or>
          (m_clients (pool tag s) = [] \<and> m_clients (pool tag s1) = [] \<and> c = fresh_client bk tag s)"
    using assms
    by (auto simp: Client_def Let_def bump_def set_clients_def pool_def fresh_client_def
        split: list.splits if_splits option.splits)
qed


subsection \<open>The argument loop\<close>

lemma sum_list_take_mono:
  fixes xs :: "int list"
  assumes "\<forall>k < b. 0 \<le> xs ! k" and "a \<le> b" and "b \<le> length xs"
  shows "sum_list (take a xs) \<le> sum_list (take b xs)"
proof -
  have split: "take b xs = take a xs @ take (b - a) (drop a xs)"
    using assms(2) by (metis le_add_diff_inverse take_add)
  have "0 \<le> sum_list (take (b - a) (drop a xs))"
  proof (rule sum_list_nonneg)
    fix x assume "x \<in> set (take (b - a) (drop a xs))"
    then obtain j where j: "j < length (take (b - a) (drop a xs))"
      and x: "x = take (b - a) (drop a xs) ! j"
      by (auto simp: in_set_conv_nth)
    from j have "a + j < b" and "a + j < length xs" by auto
    with x assms(1) show "0 \<le> x" by simp
  qed
  with split show ?thesis by simp
qed

lemma set_args_slices:
  "0 \<le> i \<Longrightarrow> i \<le> n \<Longrightarrow> nat n \<le> length lens \<Longrightarrow>
   (\<forall>k < nat n. 0 \<le> lens ! k) \<Longrightarrow>
   sum_list (take (nat n) lens) \<le> len buf \<Longrightarrow>
   off = sum_list (take (nat i) lens) \<Longrightarrow>
   set_args buf lens n i off c =
     Some (c\<lparr>vars := vars c @
        map (\<lambda>k. take (nat (lens ! k)) (drop (nat (sum_list (take k lens))) buf))
          [nat i ..< nat n]\<rparr>)"
proof (induction buf lens n i off c rule: set_args.induct)
  case (1 buf lens n i off c)
  show ?case
  proof (cases "i < n")
    case False
    with "1.prems" have "i = n" by simp
    then show ?thesis by (subst set_args.simps) simp
  next
    case True
    let ?m = "lens ! nat i"
    let ?v = "take (nat ?m) (drop (nat off) buf)"
    have inb: "nat i < length lens" using True "1.prems" by linarith
    have n0: "0 \<le> ?m" using True "1.prems" by (simp add: nat_less_iff)
    have "sum_list (take 0 lens) \<le> sum_list (take (nat i) lens)"
      using "1.prems"(1,2,3,4) by (intro sum_list_take_mono) auto
    then have nx0: "0 \<le> off" using "1.prems"(6) by simp
    have step: "off + ?m = sum_list (take (nat (i + 1)) lens)"
      using inb "1.prems"(1,6) by (simp add: nat_add_distrib take_Suc_conv_app_nth)
    have "sum_list (take (nat (i + 1)) lens) \<le> sum_list (take (nat n) lens)"
      using "1.prems"(1,2,3,4) True by (intro sum_list_take_mono) auto
    then have fits: "off + ?m \<le> len buf" using step "1.prems"(5) by simp
    have IH: "set_args buf lens n (i + 1) (off + ?m) (SetVar ?v c) =
        Some ((SetVar ?v c)\<lparr>vars := vars (SetVar ?v c) @
          map (\<lambda>k. take (nat (lens ! k)) (drop (nat (sum_list (take k lens))) buf))
            [nat (i + 1) ..< nat n]\<rparr>)"
      using "1.IH"[OF True _ refl _ _ _ "1.prems"(3,4,5) step] inb "1.prems"(1) True nx0 n0 fits
      by simp
    have range: "[nat i ..< nat n] = nat i # [nat (i + 1) ..< nat n]"
      using True "1.prems"(1) by (simp add: upt_conv_Cons nat_add_distrib)
    show ?thesis
      using True inb "1.prems"(1,6) nx0 n0 fits IH range
      by (subst set_args.simps) (simp add: SetVar_def Let_def)
  qed
qed

lemma set_args_Some_bounds:
  "set_args buf lens n i off c = Some c' \<Longrightarrow> 0 \<le> i \<Longrightarrow> i < n \<Longrightarrow>
   nat n \<le> length lens \<and> (\<forall>k. nat i \<le> k \<and> k < nat n \<longrightarrow> 0 \<le> lens ! k) \<and> 0 \<le> off \<and>
   off + sum_list (take (nat n - nat i) (drop (nat i) lens)) \<le> len buf"
proof (induction buf lens n i off c rule: set_args.induct)
  case (1 buf lens n i off c)
  let ?m = "lens ! nat i"
  let ?v = "take (nat ?m) (drop (nat off) buf)"
  from "1.prems" have inb: "nat i < length lens" and m0: "0 \<le> ?m" and o0: "0 \<le> off"
    and fits: "off + ?m \<le> len buf"
    and rec: "set_args buf lens n (i + 1) (off + ?m) (SetVar ?v c) = Some c'"
    by (subst (asm) set_args.simps, simp add: Let_def split: if_splits)+
  have hd: "take (nat n - nat i) (drop (nat i) lens) =
      ?m # take (nat n - nat (i + 1)) (drop (nat (i + 1)) lens)"
  proof -
    have "nat n - nat i = Suc (nat n - nat (i + 1))" using "1.prems"(2,3) by linarith
    moreover have "drop (nat i) lens = ?m # drop (nat (i + 1)) lens"
      using inb "1.prems"(2) by (simp add: nat_add_distrib flip: Cons_nth_drop_Suc)
    ultimately show ?thesis by simp
  qed
  show ?case
  proof (cases "i + 1 < n")
    case False
    with "1.prems"(3) have "n = i + 1" by simp
    have one: "\<And>k. nat i \<le> k \<and> k < nat n \<Longrightarrow> k = nat i"
      using \<open>n = i + 1\<close> "1.prems"(2) by (simp add: nat_add_distrib)
    have "nat n \<le> length lens" using \<open>n = i + 1\<close> inb "1.prems"(2) by (simp add: nat_add_distrib)
    moreover have "\<forall>k. nat i \<le> k \<and> k < nat n \<longrightarrow> 0 \<le> lens ! k"
      using one m0 by blast
    moreover have "off + sum_list (take (nat n - nat i) (drop (nat i) lens)) \<le> len buf"
      using hd \<open>n = i + 1\<close> fits by simp
    ultimately show ?thesis using o0 by simp
  next
    case True
    have IH: "nat n \<le> length lens \<and>
        (\<forall>k. nat (i + 1) \<le> k \<and> k < nat n \<longrightarrow> 0 \<le> lens ! k) \<and> 0 \<le> off + ?m \<and>
        off + ?m + sum_list (take (nat n - nat (i + 1)) (drop (nat (i + 1)) lens)) \<le> len buf"
      using "1.IH"[OF "1.prems"(3) _ refl _ rec _ True] inb "1.prems"(2) o0 m0 fits by simp
    have "\<forall>k. nat i \<le> k \<and> k < nat n \<longrightarrow> 0 \<le> lens ! k"
    proof (intro allI impI)
      fix k assume k: "nat i \<le> k \<and> k < nat n"
      show "0 \<le> lens ! k"
      proof (cases "k = nat i")
        case True
        with m0 show ?thesis by simp
      next
        case False
        with k "1.prems"(2) have "nat (i + 1) \<le> k \<and> k < nat n" by (simp add: nat_add_distrib)
        with IH show ?thesis by blast
      qed
    qed
    with IH o0 hd show ?thesis by simp
  qed
qed

lemma in_bounds_nth:
  "in_bounds buf lens n \<longleftrightarrow>
     nat n \<le> length lens \<and> (\<forall>k < nat n. 0 \<le> lens ! k) \<and>
     sum_list (take (nat n) lens) \<le> len buf"
  by (auto simp: in_bounds_def list_all_length)

lemma set_args_in_bounds:
  "set_args buf lens n 0 0 c =
     (if in_bounds buf lens n then Some (c\<lparr>vars := vars c @ slices buf lens n\<rparr>) else None)"
proof (cases "0 < n")
  case False
  then have "set_args buf lens n 0 0 c = Some c" by (subst set_args.simps) simp
  with False show ?thesis by (simp add: in_bounds_nth slices_def len_def)
next
  case True
  show ?thesis
  proof (cases "in_bounds buf lens n")
    case wf: True
    with True set_args_slices[of 0 n lens buf 0 c] show ?thesis
      by (simp add: in_bounds_nth slices_def)
  next
    case nwf: False
    have "set_args buf lens n 0 0 c = None"
    proof (rule ccontr)
      assume "set_args buf lens n 0 0 c \<noteq> None"
      then obtain c' where "set_args buf lens n 0 0 c = Some c'" by auto
      from set_args_Some_bounds[OF this _ True] nwf show False by (simp add: in_bounds_nth)
    qed
    with nwf show ?thesis by simp
  qed
qed

lemma run_on_in_bounds:
  "run_on bk f c s =
     (if in_bounds (joined f) (args f) (argc f)
      then Inr (run_cmd bk f
             (if override f then c_str (GetUser c) else [])
             (if override f then c_str (GetPassword c) else [])
             ((if override f
               then SetPassword (c_str (passwdStr f)) (SetUser (c_str (userStr f)) c)
               else c)\<lparr>vars := vars c @ slices (joined f) (args f) (argc f)\<rparr>)
             s)
      else Inl Undefined)"
  by (simp add: run_on_def Let_def set_args_in_bounds SetUser_def SetPassword_def)

text \<open>
  C5, as the source has it. When the reads of the argument loop stay inside the
  length table and the packed buffer (the table has \<^verbatim>\<open>argc\<close> entries or more,
  none of the first \<^verbatim>\<open>argc\<close> is negative, their sum is within the buffer), the
  loop sets exactly \<^verbatim>\<open>argc\<close> more unnamed variables on the client, the \<open>k\<close>-th
  being the slice of the buffer that starts at the sum of the first \<open>k\<close> lengths and
  has the \<open>k\<close>-th length, in order, and the body of the loop of \<^verbatim>\<open>p4runcb\<close>
  runs the command on the leased client with exactly these variables added (after
  the override, if there is one). Otherwise the loop reads memory that it was not
  given, and what it does from there on is undefined.
\<close>

theorem args_set_before_run:
  "set_args buf lens n 0 0 c =
     (if in_bounds buf lens n then Some (c\<lparr>vars := vars c @ slices buf lens n\<rparr>) else None)
   \<and> length (slices buf lens n) = nat n
   \<and> run_on bk f c s =
     (if in_bounds (joined f) (args f) (argc f)
      then Inr (run_cmd bk f
             (if override f then c_str (GetUser c) else [])
             (if override f then c_str (GetPassword c) else [])
             ((if override f
               then SetPassword (c_str (passwdStr f)) (SetUser (c_str (userStr f)) c)
               else c)\<lparr>vars := vars c @ slices (joined f) (args f) (argc f)\<rparr>)
             s)
      else Inl Undefined)"
  using set_args_in_bounds[of buf lens n c] run_on_in_bounds[of bk f c s]
  by (simp add: slices_def)

theorem args_set_before_run_witness:
  "in_bounds ''foobarbaz'' [3, 3, 3] 3
   \<and> slices ''foobarbaz'' [3, 3, 3] 3 = [''foo'', ''bar'', ''baz'']
   \<and> set_args ''foobarbaz'' [3, 3, 3] 3 0 0 alice =
       Some (alice\<lparr>vars := [''foo'', ''bar'', ''baz'']\<rparr>)
   \<and> run_on bk_args f_args alice (s_start\<lparr>tick := 1\<rparr>) =
       Inr (Break, alice,
            s_start\<lparr>emitted := [gop4apiOutputText 7 ''foo'', gop4apiOutputText 7 ''bar'',
                                  gop4apiOutputText 7 ''baz''],
                    tick := 2\<rparr>)"
proof -
  have b: "in_bounds ''foobarbaz'' [3, 3, 3] 3"
    by (simp add: in_bounds_def len_def)
  have sl: "slices ''foobarbaz'' [3, 3, 3] 3 = [''foo'', ''bar'', ''baz'']"
    by (simp add: slices_def upt_rec nth_Cons' numeral_3_eq_3)
  have f: "joined f_args = ''foobarbaz''" "args f_args = [3, 3, 3]" "argc f_args = 3"
    "\<not> override f_args" "cb f_args = \<lparr>m_cbid = 7, m_input = []\<rparr>"
    by (simp_all add: f_args_def f_info_def override_def)
  have r: "run_cmd bk_args f_args [] [] (alice\<lparr>vars := [''foo'', ''bar'', ''baz'']\<rparr>)
        (s_start\<lparr>tick := 1\<rparr>) =
      (Break, alice,
       s_start\<lparr>emitted := [gop4apiOutputText 7 ''foo'', gop4apiOutputText 7 ''bar'',
                             gop4apiOutputText 7 ''baz''],
               tick := 2\<rparr>)"
    by (simp add: run_cmd_def f bk_args_def bk_ok_def alice_def s_start_def emit_def bump_def
        OutputText_def Let_def)
  have v: "vars alice = []" by (simp add: alice_def)
  show ?thesis
    using args_set_before_run[of "''foobarbaz''" "[3, 3, 3]" 3 alice bk_args f_args
        "s_start\<lparr>tick := 1\<rparr>"] b sl f r v
    by simp
qed

text \<open>
  C5 as it is stated, for every buffer, table and count, fails: with the buffer
  \<^verbatim>\<open>foobar\<close>, the lengths 3 and 4 and the count 2, the second slice would end
  one byte after the buffer. The loop reads outside the memory it was given, and the
  iteration and the call of \<^verbatim>\<open>p4runcb\<close> are undefined.
\<close>

theorem args_out_of_bounds:
  "set_args ''foobar'' [3, 4] 2 0 0 alice = None
   \<and> run_on bk_args f_short alice (s_start\<lparr>tick := 1\<rparr>) = Inl Undefined
   \<and> p4runcb 1 bk_args ''print'' [] [] [] ''foobar'' 2 [3, 4] 7 False s_idle = Inl Undefined"
proof -
  have nb: "\<not> in_bounds ''foobar'' [3, 4] 2"
    by (simp add: in_bounds_def len_def)
  have f: "joined f_short = ''foobar''" "args f_short = [3, 4]" "argc f_short = 2"
    by (simp_all add: f_short_def f_info_def)
  have a: "set_args ''foobar'' [3, 4] 2 0 0 alice = None"
    using nb by (simp add: set_args_in_bounds)
  have b: "run_on bk_args f_short alice (s_start\<lparr>tick := 1\<rparr>) = Inl Undefined"
    using nb by (simp add: run_on_in_bounds f)
  have c: "p4runcb 1 bk_args ''print'' [] [] [] ''foobar'' 2 [3, 4] 7 False s_idle = Inl Undefined"
    using nb
    by (simp add: p4runcb_def attempt_def Client_def run_on_in_bounds pool_def s_idle_def
        s_start_def bump_def set_clients_def Let_def)
  from a b c show ?thesis by simp
qed

subsection \<open>The sink\<close>

lemma OutputStat_loop_filter:
  "OutputStat_loop varList i keys vals =
     (keys @ map fst (filter (\<lambda>(var, val). var \<noteq> ''func'' \<and> var \<noteq> v_specFormatted) (drop i varList)),
      vals @ map snd (filter (\<lambda>(var, val). var \<noteq> ''func'' \<and> var \<noteq> v_specFormatted) (drop i varList)))"
proof (induction varList i keys vals rule: OutputStat_loop.induct)
  case (1 varList i keys vals)
  show ?case
  proof (cases "i < length varList")
    case False
    then show ?thesis
      by (subst OutputStat_loop.simps) (simp add: GetVar_def)
  next
    case True
    obtain var val where kv: "varList ! i = (var, val)" by (cases "varList ! i")
    have g: "GetVar varList i = Some (var, val)" using True kv by (simp add: GetVar_def)
    have d: "drop i varList = (var, val) # drop (i + 1) varList"
      using True kv by (simp flip: Cons_nth_drop_Suc)
    show ?thesis
    proof (cases "var = ''func'' \<or> var = v_specFormatted")
      case True
      with "1.IH"(1)[OF g refl] g d show ?thesis
        by (subst OutputStat_loop.simps) auto
    next
      case False
      with "1.IH"(2)[OF g refl] g d show ?thesis
        by (subst OutputStat_loop.simps) auto
    qed
  qed
qed

text \<open>
  C6. \<^verbatim>\<open>OutputStat\<close> forwards one stat event whose keys and values are, in the
  order of the record, those of the pairs whose key is neither \<^verbatim>\<open>func\<close> nor
  \<^verbatim>\<open>specFormatted\<close>: two sequences of the same length, which is the count it
  passes. The record with keys \<^verbatim>\<open>func\<close>, \<^verbatim>\<open>specFormatted\<close> and
  \<^verbatim>\<open>client\<close> forwards the pair of \<^verbatim>\<open>client\<close> alone.
\<close>

theorem OutputStat_forwards:
  "OutputStat this varList =
     [gop4apiOutputStat (m_cbid this)
        (int (length (filter (\<lambda>(var, val). var \<noteq> ''func'' \<and> var \<noteq> v_specFormatted) varList)))
        (map fst (filter (\<lambda>(var, val). var \<noteq> ''func'' \<and> var \<noteq> v_specFormatted) varList))
        (map snd (filter (\<lambda>(var, val). var \<noteq> ''func'' \<and> var \<noteq> v_specFormatted) varList))]
   \<and> OutputStat this [(''func'', ''x''), (''specFormatted'', ''y''), (''client'', ''z'')] =
     [gop4apiOutputStat (m_cbid this) 1 [''client''] [''z'']]"
proof -
  have general: "\<And>d. OutputStat this d =
     [gop4apiOutputStat (m_cbid this)
        (int (length (filter (\<lambda>(var, val). var \<noteq> ''func'' \<and> var \<noteq> v_specFormatted) d)))
        (map fst (filter (\<lambda>(var, val). var \<noteq> ''func'' \<and> var \<noteq> v_specFormatted) d))
        (map snd (filter (\<lambda>(var, val). var \<noteq> ''func'' \<and> var \<noteq> v_specFormatted) d))]"
    by (simp add: OutputStat_def OutputStat_loop_filter)
  show ?thesis
    by (simp only: general) (simp add: v_specFormatted_def)
qed

text \<open>
  C9. \<^verbatim>\<open>InputData\<close> leaves the buffer as it is when the input of the execution
  is empty; otherwise the buffer holds its former bytes followed by the bytes of
  the input, and is terminated.
\<close>

theorem InputData_appends:
  "InputData this buf =
     (if m_input this = [] then buf
      else \<lparr>Text = Text buf @ m_input this, terminated = True\<rparr>)"
  by (simp add: InputData_def len_def Append_def Terminate_def)

lemma dispatch_no_retry: "filter is_retry (dispatch this call) = []"
  by (cases call)
     (auto simp: HandleError_def OutputBinary_def OutputText_def OutputInfo_def OutputStat_def
           split: prod.splits)

lemma dispatch_all_no_retry: "filter is_retry (concat (map (dispatch this) calls)) = []"
  by (induction calls) (simp_all add: dispatch_no_retry)

subsection \<open>The invariant of the pool\<close>

lemma pool_ops_inv:
  "pool_inv (pool t s) \<Longrightarrow> pool_inv (pool t (snd (snd (pool_ops bk tag ops s))))"
proof (induction ops arbitrary: s)
  case Nil
  then show ?case by simp
next
  case (Cons op ops)
  show ?case
  proof (cases op)
    case Acquire
    have "pool_inv (pool t (snd (Client bk tag None None False s)))"
      using Cons.prems Client_pool[of t bk tag None None False s]
      by (auto intro: pool_inv_tl pool_inv_cong split: if_splits)
    from Cons.IH[OF this] Acquire show ?thesis
      by (auto split: prod.splits)
  next
    case (Release c)
    have "pool_inv (pool t (deleter tag c s))"
      using Cons.prems deleter_pool[of t tag c s]
      by (auto simp: pool_inv_def kMaxClients_def split: if_splits)
    from Cons.IH[OF this] Release show ?thesis
      by (auto split: prod.splits)
  qed
qed

text \<open>
  C3. The idle queue of a pool is empty at the start of the process, and for either
  pool \<open>t\<close>: if its idle queue holds at most 16 clients, none of them dropped,
  before an acquisition or a release on any pool, it does so after it, and so after
  every sequence of acquisitions and releases. A release of a client that is not
  dropped, made when the queue of its pool holds 16 clients, destroys the client and
  leaves the queue as it is.
\<close>

theorem pool_invariant:
  "pool_inv \<lparr>m_clients = []\<rparr>
   \<and> (pool_inv (pool t s) \<longrightarrow> pool_inv (pool t (snd (Client bk tag ns error fresh s))))
   \<and> (pool_inv (pool t s) \<longrightarrow> pool_inv (pool t (deleter tag c s)))
   \<and> (pool_inv (pool t s) \<longrightarrow> pool_inv (pool t (snd (snd (pool_ops bk tag ops s)))))
   \<and> (\<not> Dropped c \<and> length (m_clients (pool tag s)) = 16 \<longrightarrow>
        deleter tag c s = s\<lparr>deleted := deleted s @ [c]\<rparr>)"
proof (intro conjI impI)
  show "pool_inv \<lparr>m_clients = []\<rparr>"
    by (simp add: pool_inv_def kMaxClients_def)
next
  assume inv: "pool_inv (pool t s)"
  show "pool_inv (pool t (snd (Client bk tag ns error fresh s)))"
    using inv Client_pool[of t bk tag ns error fresh s]
    by (auto intro: pool_inv_tl pool_inv_cong split: if_splits)
  show "pool_inv (pool t (deleter tag c s))"
    using inv deleter_pool[of t tag c s]
    by (auto simp: pool_inv_def kMaxClients_def split: if_splits)
  show "pool_inv (pool t (snd (snd (pool_ops bk tag ops s))))"
    using inv by (rule pool_ops_inv)
next
  assume "\<not> Dropped c \<and> length (m_clients (pool tag s)) = 16"
  then show "deleter tag c s = s\<lparr>deleted := deleted s @ [c]\<rparr>"
    by (simp add: deleter_def kMaxClients_def)
qed

theorem pool_invariant_witness:
  "pool_inv (pool False s_full)
   \<and> pool_inv (pool False (snd (Client bk_ok False None None False s_full)))
   \<and> pool_inv (pool False (deleter False alice s_full))
   \<and> pool_inv (pool False
        (snd (snd (pool_ops bk_ok False [Release alice, Acquire, Release bob] s_full))))
   \<and> deleter False alice s_full = s_full\<lparr>deleted := [alice]\<rparr>"
proof -
  have inv: "pool_inv (pool False s_full)"
    by (simp add: pool_inv_def pool_def s_full_def s_start_def alice_def kMaxClients_def
        list_all_iff)
  have full: "\<not> Dropped alice \<and> length (m_clients (pool False s_full)) = 16"
    by (simp add: pool_def s_full_def s_start_def alice_def)
  have d: "deleted s_full = []"
    by (simp add: s_full_def s_start_def)
  show ?thesis
    using pool_invariant[of False s_full bk_ok False None None False alice
        "[Release alice, Acquire, Release bob]"] inv full d
    by (simp del: pool_ops.simps)
qed

subsection \<open>The order of service\<close>

lemma pool_ops_fifo:
  "pool_ops bk tag ops s = (taken, put, s') \<Longrightarrow>
   taken @ m_clients (pool tag s') = m_clients (pool tag s) @ put"
proof (induction ops arbitrary: s taken put s')
  case Nil
  then show ?case by simp
next
  case (Cons op ops)
  show ?case
  proof (cases op)
    case Acquire
    obtain r ns e fr s1 where cl: "Client bk tag None None False s = ((r, ns, e, fr), s1)"
      by (cases "Client bk tag None None False s") auto
    obtain taken1 put1 s2 where rest: "pool_ops bk tag ops s1 = (taken1, put1, s2)"
      by (cases "pool_ops bk tag ops s1") auto
    note IH = Cons.IH[OF rest]
    show ?thesis
    proof (cases "m_clients (pool tag s)")
      case (Cons c q)
      then have "r = Some c" "fr = False" "m_clients (pool tag s1) = q"
        using cl by (auto simp: Client_idle)
      with IH Cons.prems Acquire cl rest Cons show ?thesis by auto
    next
      case Nil
      have same: "m_clients (pool tag s1) = []"
        using Client_pool[of tag bk tag None None False s] cl Nil by simp
      have "r = None \<or> fr"
        using cl Nil
        by (cases "Test (init_error bk tag s)") (auto simp: Client_fail_null Client_fresh_null)
      with IH Cons.prems Acquire cl rest Nil same show ?thesis by (auto split: option.splits)
    qed
  next
    case (Release c)
    obtain taken1 put1 s2 where rest: "pool_ops bk tag ops (deleter tag c s) = (taken1, put1, s2)"
      by (cases "pool_ops bk tag ops (deleter tag c s)") auto
    note IH = Cons.IH[OF rest]
    show ?thesis
      using IH Cons.prems Release rest deleter_pool[of tag tag c s]
      by (auto split: if_splits)
  qed
qed

text \<open>
  C7. An acquisition that finds the idle queue not empty removes its front client
  and returns it, and writes neither \<open>fresh\<close> nor the error. A release of a client
  that is not dropped, while the queue holds fewer than 16, puts it at the back. So
  for every sequence of acquisitions and releases on a pool, the clients taken from
  the queue, followed by those still on it, are the clients it held at first followed
  by those put on it: clients leave in the order in which they were put.
\<close>

theorem pool_fifo:
  "(m_clients (pool tag s) = c # rest \<longrightarrow>
      Client bk tag ns error fresh s = ((Some c, ns, error, fresh), set_clients tag rest (bump s)))
   \<and> (\<not> Dropped c \<and> int (length (m_clients (pool tag s))) < kMaxClients \<longrightarrow>
      m_clients (pool tag (deleter tag c s)) = m_clients (pool tag s) @ [c])
   \<and> (pool_ops bk tag ops s = (taken, put, s') \<longrightarrow>
      taken @ m_clients (pool tag s') = m_clients (pool tag s) @ put)"
  using Client_idle[of tag s c rest bk ns error fresh] deleter_pool[of tag tag c s]
    pool_ops_fifo[of bk tag ops s taken put s']
  by simp

theorem pool_fifo_witness:
  "Client bk_ok False None None False s_idle =
     ((Some alice, None, None, False), set_clients False [] (bump s_idle))
   \<and> m_clients (pool False (deleter False alice s_idle)) = [alice, alice]
   \<and> pool_ops bk_ok False [Release bob, Acquire, Acquire] s_idle =
       ([alice, bob], [bob], s_idle\<lparr>defaultPool := \<lparr>m_clients = []\<rparr>, tick := 2\<rparr>)
   \<and> [alice, bob] @ m_clients (pool False (s_idle\<lparr>defaultPool := \<lparr>m_clients = []\<rparr>, tick := 2\<rparr>)) =
       m_clients (pool False s_idle) @ [bob]"
proof -
  have h1: "m_clients (pool False s_idle) = alice # []"
    by (simp add: pool_def s_idle_def s_start_def)
  have h2: "\<not> Dropped alice \<and> int (length (m_clients (pool False s_idle))) < kMaxClients"
    by (simp add: pool_def s_idle_def s_start_def alice_def kMaxClients_def)
  have h3: "pool_ops bk_ok False [Release bob, Acquire, Acquire] s_idle =
       ([alice, bob], [bob], s_idle\<lparr>defaultPool := \<lparr>m_clients = []\<rparr>, tick := 2\<rparr>)"
    by (simp add: model_defs bk_ok_def no_error_def alice_def s_start_def s_idle_def bob_def)
  show ?thesis
    using pool_fifo[of False s_idle alice "[]" bk_ok None None False
        "[Release bob, Acquire, Acquire]" "[alice, bob]" "[bob]"
        "s_idle\<lparr>defaultPool := \<lparr>m_clients = []\<rparr>, tick := 2\<rparr>"] h1 h2 h3
    by simp
qed

subsection \<open>Failure to acquire\<close>

text \<open>
  C4. When the idle queue of the selected pool is empty and the \<^verbatim>\<open>Init\<close> of the
  new client fails, the loop returns in that iteration, whatever fuel is left, with
  \<^verbatim>\<open>init_us\<close> as it was. It has emitted exactly one event, the error event that
  carries the message of the failure, and no retry notice; the library was called
  for one construction only (three ticks: clock, constructor, \<^verbatim>\<open>Init\<close>), the new
  client is destroyed and the pools are as before.
\<close>

theorem acquisition_failure:
  assumes "m_clients (pool (tagged f) s) = []" and "Test (init_error bk (tagged f) s)"
  shows "p4runcb_loop (Suc n) bk f init_us s =
     Inr (init_us,
          s\<lparr>emitted := emitted s @
               [gop4apiHandleError (m_cbid (cb f))
                  (''error initializing client: '' @ c_str (Fmt (init_error bk (tagged f) s)))],
            deleted := deleted s @ [fresh_client bk (tagged f) s],
            tick := tick s + 3\<rparr>)"
  using assms
  by (simp add: attempt_def Client_fail after_def emit_def HandleError_string_def)

theorem acquisition_failure_witness:
  "p4runcb_loop (Suc 0) bk_down f_info 0 s_start =
     Inr (0, s_start\<lparr>emitted :=
                [gop4apiHandleError 7 ''error initializing client: Connect to server failed''],
              deleted := [alice], tick := 3\<rparr>)"
proof -
  have h1: "m_clients (pool (tagged f_info) s_start) = []"
    by (simp add: pool_def f_info_def s_start_def)
  have h2: "Test (init_error bk_down (tagged f_info) s_start)"
    by (simp add: init_error_def bk_down_def bk_ok_def)
  show ?thesis
    using acquisition_failure[OF h1 h2, of 0 0]
    by (simp add: model_defs bk_ok_def no_error_def alice_def s_start_def bk_down_def f_info_def)
qed

subsection \<open>One iteration of the loop\<close>

lemma run_on_Break:
  assumes "run_on bk f c s = Inr (Break, c', s')"
  shows "\<not> Dropped c'"
    and "override f \<Longrightarrow>
          GetUser c' = c_str (GetUser c) \<and> GetPassword c' = c_str (GetPassword c)"
    and "pool t s' = pool t s" and "deleted s' = deleted s"
  using assms
  by (auto simp: run_on_def run_cmd_def Let_def SetUser_def SetPassword_def emit_def bump_def
        pool_def c_str_idem
      split: option.splits prod.splits if_splits)

lemma run_on_Continue:
  assumes "run_on bk f c s = Inr (Continue, c', s')"
  shows "Dropped c'"
    and "pool t s' = pool t s" and "deleted s' = deleted s"
    and "filter is_retry (drop (length (emitted s)) (emitted s')) =
          (if Test (Final bk (Suc (tick s)) c')
           then [gop4apiRetry (m_cbid (cb f)) ''p4 connection dropped: ''
                   (Fmt (Final bk (Suc (tick s)) c'))]
           else [])"
  using assms
  by (auto simp: run_on_def run_cmd_def Let_def emit_def bump_def pool_def Retry_def c_str_def
        dispatch_all_no_retry
           split: option.splits prod.splits if_splits)

lemma run_on_not_Return: "run_on bk f c s \<noteq> Inr (Return, c', s')"
  by (auto simp: run_on_def run_cmd_def Let_def split: option.splits prod.splits if_splits)

subsection \<open>The credentials of a call\<close>




lemma restored_idem: "restored (restored cr) = restored cr"
  by (simp add: restored_def c_str_idem)

lemma attempt_creds:
  assumes "override f" and "attempt bk f n s = Inr (k, n', s')"
    and "\<forall>x\<in>set (m_clients (pool (tagged f) s)). creds x \<in> A"
    and "\<forall>t. creds (new_ClientApi bk t) \<in> A"
    and "\<forall>cr\<in>A. restored cr \<in> A"
  shows "\<forall>x\<in>set (m_clients (pool (tagged f) s')). creds x \<in> A"
proof -
  obtain r ns e fr s1 where cl: "Client bk (tagged f) (Some n) (Some []) False s = ((r, ns, e, fr), s1)"
    by (cases "Client bk (tagged f) (Some n) (Some []) False s") auto
  show ?thesis
  proof (cases r)
    case None
    with cl assms(2) have "pool (tagged f) s' = pool (tagged f) s"
      using Client_facts(3)[OF cl] by (auto simp: attempt_def)
    with assms(3) show ?thesis by simp
  next
    case (Some c)
    have fc: "creds (fresh_client bk (tagged f) s) = creds (new_ClientApi bk (Suc (tick s)))"
      by (simp add: fresh_client_def creds_def SetProtocol_def SetCharset_def)
    have cA: "creds c \<in> A" and rest: "\<forall>x\<in>set (m_clients (pool (tagged f) s1)). creds x \<in> A"
      using Client_facts(4)[OF cl Some] assms(3,4) fc by auto
    obtain k1 c' s2 where ro: "run_on bk f c s1 = Inr (k1, c', s2)"
      and s': "s' = deleter (tagged f) c' s2" and k: "k = k1"
      using cl Some assms(2) by (auto simp: attempt_def split: sum.splits)
    show ?thesis
    proof (cases k1)
      case Return
      with ro show ?thesis by (simp add: run_on_not_Return)
    next
      case Break
      with ro run_on_Break[of bk f c s1 c' s2] assms(1)
      have "creds c' = restored (creds c)" and "pool (tagged f) s2 = pool (tagged f) s1"
        by (auto simp: creds_def restored_def)
      with cA assms(5) rest s' deleter_pool[of "tagged f" "tagged f" c' s2] show ?thesis
        by (auto split: if_splits)
    next
      case Continue
      with ro run_on_Continue[of bk f c s1 c' s2]
      have "Dropped c'" and "pool (tagged f) s2 = pool (tagged f) s1" by auto
      with rest s' deleter_pool[of "tagged f" "tagged f" c' s2] show ?thesis by auto
    qed
  qed
qed

lemma loop_creds:
  assumes "override f" and "\<forall>t. creds (new_ClientApi bk t) \<in> A"
    and "\<forall>cr\<in>A. restored cr \<in> A"
  shows "p4runcb_loop m bk f n s = Inr (ret, s') \<Longrightarrow>
    \<forall>x\<in>set (m_clients (pool (tagged f) s)). creds x \<in> A \<Longrightarrow>
    \<forall>x\<in>set (m_clients (pool (tagged f) s')). creds x \<in> A"
proof (induction m arbitrary: n s)
  case 0
  then show ?case by simp
next
  case (Suc m)
  from Suc.prems(1) obtain k n1 s1 where at: "attempt bk f n s = Inr (k, n1, s1)"
    by (auto split: sum.splits)
  note step = attempt_creds[OF assms(1) at Suc.prems(2) assms(2,3)]
  show ?case
  proof (cases k)
    case Continue
    with at Suc.prems(1) have "p4runcb_loop m bk f n1 s1 = Inr (ret, s')" by simp
    from Suc.IH[OF this step] show ?thesis .
  next
    case Return
    with at Suc.prems(1) step show ?thesis by simp
  next
    case Break
    with at Suc.prems(1) step show ?thesis by simp
  qed
qed

text \<open>
  C10. The deleter destroys a dropped client and leaves the queue as it is, however
  many clients the queue holds. The client of an iteration that found it dropped is
  still dropped when the deleter gets it, so it is destroyed, with whatever
  credentials it carries. Hence, after a call that carries an override, every idle
  client of the selected pool has credentials that no override of the call set: those
  of a client that was idle before the call or of a client as the library constructs
  it, either as they were or as the restore sets them (what \<^verbatim>\<open>Text()\<close> read of
  them at the lease).
\<close>

theorem dropped_never_requeued:
  "(Dropped c \<longrightarrow> deleter tag c s = s\<lparr>deleted := deleted s @ [c]\<rparr>)
   \<and> (run_on bk f c1 s1 = Inr (Continue, c', s2) \<longrightarrow>
        Dropped c' \<and> deleter (tagged f) c' s2 = s2\<lparr>deleted := deleted s2 @ [c']\<rparr>)
   \<and> (override f \<and> p4runcb_loop n bk f init_us s0 = Inr (ret, s') \<longrightarrow>
        (\<forall>x\<in>set (m_clients (pool (tagged f) s')).
           creds x \<in> (creds ` set (m_clients (pool (tagged f) s0)) \<union>
                      range (\<lambda>t. creds (new_ClientApi bk t))) \<union>
                     restored ` (creds ` set (m_clients (pool (tagged f) s0)) \<union>
                      range (\<lambda>t. creds (new_ClientApi bk t)))))"
proof (intro conjI impI)
  show "Dropped c \<Longrightarrow> deleter tag c s = s\<lparr>deleted := deleted s @ [c]\<rparr>"
    by (simp add: deleter_def)
  show "run_on bk f c1 s1 = Inr (Continue, c', s2) \<Longrightarrow> Dropped c'"
    by (rule run_on_Continue(1))
  show "run_on bk f c1 s1 = Inr (Continue, c', s2) \<Longrightarrow>
      deleter (tagged f) c' s2 = s2\<lparr>deleted := deleted s2 @ [c']\<rparr>"
    using run_on_Continue(1)[of bk f c1 s1 c' s2] by (simp add: deleter_def)
next
  let ?B = "creds ` set (m_clients (pool (tagged f) s0)) \<union>
            range (\<lambda>t. creds (new_ClientApi bk t))"
  assume h: "override f \<and> p4runcb_loop n bk f init_us s0 = Inr (ret, s')"
  have closed: "\<forall>cr\<in>?B \<union> restored ` ?B. restored cr \<in> ?B \<union> restored ` ?B"
    by (auto simp: restored_idem)
  have new: "\<forall>t. creds (new_ClientApi bk t) \<in> ?B \<union> restored ` ?B"
    by auto
  have old: "\<forall>x\<in>set (m_clients (pool (tagged f) s0)). creds x \<in> ?B \<union> restored ` ?B"
    by auto
  from h loop_creds[of f bk "?B \<union> restored ` ?B" n init_us s0 ret s', OF _ new closed _ old]
  show "\<forall>x\<in>set (m_clients (pool (tagged f) s')). creds x \<in> ?B \<union> restored ` ?B"
    by blast
qed

theorem dropped_never_requeued_witness:
  "deleter False (bob\<lparr>Dropped := True\<rparr>) s_idle = s_idle\<lparr>deleted := [bob\<lparr>Dropped := True\<rparr>]\<rparr>
   \<and> run_on bk_drop_err f_as_bob alice (s_start\<lparr>tick := 4\<rparr>) =
       Inr (Continue, bob\<lparr>Dropped := True\<rparr>,
            s_start\<lparr>emitted := [gop4apiRetry 7 ''p4 connection dropped: '' ''TCP receive failed.''],
                    tick := 6\<rparr>)
   \<and> p4runcb_loop 2 bk_drop_err f_as_bob 0 s_start =
       Inr (6, s_start\<lparr>defaultPool := \<lparr>m_clients = [alice]\<rparr>,
                     emitted := [gop4apiRetry 7 ''p4 connection dropped: '' ''TCP receive failed.''],
                     deleted := [bob\<lparr>Dropped := True\<rparr>], tick := 11\<rparr>)
   \<and> creds alice = (''alice'', ''secret'')
   \<and> creds (new_ClientApi bk_drop_err 7) = (''alice'', ''secret'')"
proof -
  have h1: "Dropped (bob\<lparr>Dropped := True\<rparr>)" by simp
  have h2: "run_on bk_drop_err f_as_bob alice (s_start\<lparr>tick := 4\<rparr>) =
       Inr (Continue, bob\<lparr>Dropped := True\<rparr>,
            s_start\<lparr>emitted := [gop4apiRetry 7 ''p4 connection dropped: '' ''TCP receive failed.''],
                    tick := 6\<rparr>)"
    by (simp add: model_defs bk_ok_def no_error_def alice_def s_start_def bk_drop_err_def
        bk_drop_def broken_pipe_def f_as_bob_def f_info_def
        s_idle_def bob_def set_args.simps)
  have h3: "override f_as_bob \<and> p4runcb_loop 2 bk_drop_err f_as_bob 0 s_start =
       Inr (6, s_start\<lparr>defaultPool := \<lparr>m_clients = [alice]\<rparr>,
                     emitted := [gop4apiRetry 7 ''p4 connection dropped: '' ''TCP receive failed.''],
                     deleted := [bob\<lparr>Dropped := True\<rparr>], tick := 11\<rparr>)"
    by (simp add: numeral_2_eq_2 model_defs bk_ok_def no_error_def alice_def s_start_def
        bk_drop_err_def bk_drop_def broken_pipe_def f_as_bob_def f_info_def
        s_idle_def bob_def set_args.simps elapsed_us_def)
  show ?thesis
    using dropped_never_requeued[of "bob\<lparr>Dropped := True\<rparr>" False s_idle
        bk_drop_err f_as_bob alice "s_start\<lparr>tick := 4\<rparr>" "bob\<lparr>Dropped := True\<rparr>"
        "s_start\<lparr>emitted := [gop4apiRetry 7 ''p4 connection dropped: '' ''TCP receive failed.''],
                    tick := 6\<rparr>"
        2 0 s_start 6
        "s_start\<lparr>defaultPool := \<lparr>m_clients = [alice]\<rparr>,
                     emitted := [gop4apiRetry 7 ''p4 connection dropped: '' ''TCP receive failed.''],
                     deleted := [bob\<lparr>Dropped := True\<rparr>], tick := 11\<rparr>"]
      h1 h2 h3
    by (simp add: creds_def bk_ok_def no_error_def alice_def s_start_def bk_drop_err_def
        bk_drop_def broken_pipe_def f_as_bob_def f_info_def
        s_idle_def bob_def deleter_def)
qed

subsection \<open>The retry notice\<close>

text \<open>
  C1, as the source has it. In an iteration in which \<^verbatim>\<open>pool.Client\<close> leased a
  client and the command left it dropped, \<^verbatim>\<open>Final\<close> is called on it and the
  retry notices emitted in the iteration are: exactly one, with the context
  \<^verbatim>\<open>p4 connection dropped: \<close> and the text of the error, when \<^verbatim>\<open>Final\<close>
  reports an error; none when it reports no error. Either way the client is
  destroyed and the loop goes on to its next iteration.
\<close>

theorem retry_notice_when_final_fails:
  assumes "Client bk (tagged f) (Some init_us) (Some []) False s = ((Some c, ns, errmsg, fresh), s1)"
    and "run_on bk f c s1 = Inr (Continue, c', s2)"
  shows "Dropped c'
     \<and> filter is_retry (drop (length (emitted s)) (emitted s2)) =
         (if Test (Final bk (Suc (tick s1)) c')
          then [gop4apiRetry (m_cbid (cb f)) ''p4 connection dropped: ''
                  (Fmt (Final bk (Suc (tick s1)) c'))]
          else [])
     \<and> p4runcb_loop (Suc n) bk f init_us s =
         p4runcb_loop n bk f (after init_us ns) (s2\<lparr>deleted := deleted s2 @ [c']\<rparr>)"
  using assms run_on_Continue[OF assms(2)] Client_facts(1)[OF assms(1)]
  by (simp add: attempt_def deleter_def)

theorem retry_notice_when_final_fails_witness:
  "Client bk_drop_err False (Some 0) (Some []) False s_start =
       ((Some alice, Some 3, Some [], True), s_start\<lparr>tick := 4\<rparr>)
   \<and> run_on bk_drop_err f_info alice (s_start\<lparr>tick := 4\<rparr>) =
       Inr (Continue, alice\<lparr>Dropped := True\<rparr>,
            s_start\<lparr>emitted := [gop4apiRetry 7 ''p4 connection dropped: '' ''TCP receive failed.''],
                    tick := 6\<rparr>)
   \<and> filter is_retry (emitted (s_start\<lparr>emitted :=
          [gop4apiRetry 7 ''p4 connection dropped: '' ''TCP receive failed.''], tick := 6\<rparr>)) =
       [gop4apiRetry 7 ''p4 connection dropped: '' ''TCP receive failed.'']
   \<and> p4runcb_loop (Suc 1) bk_drop_err f_info 0 s_start =
       p4runcb_loop 1 bk_drop_err f_info 3
         (s_start\<lparr>emitted := [gop4apiRetry 7 ''p4 connection dropped: '' ''TCP receive failed.''],
                  deleted := [alice\<lparr>Dropped := True\<rparr>], tick := 6\<rparr>)"
proof -
  have h1: "Client bk_drop_err (tagged f_info) (Some 0) (Some []) False s_start =
       ((Some alice, Some 3, Some [], True), s_start\<lparr>tick := 4\<rparr>)"
    by (simp add: model_defs bk_ok_def no_error_def alice_def s_start_def bk_drop_err_def
        bk_drop_def broken_pipe_def f_info_def elapsed_us_def)
  have h2: "run_on bk_drop_err f_info alice (s_start\<lparr>tick := 4\<rparr>) =
       Inr (Continue, alice\<lparr>Dropped := True\<rparr>,
            s_start\<lparr>emitted := [gop4apiRetry 7 ''p4 connection dropped: '' ''TCP receive failed.''],
                    tick := 6\<rparr>)"
    by (simp add: model_defs bk_ok_def no_error_def alice_def s_start_def bk_drop_err_def
        bk_drop_def broken_pipe_def f_info_def set_args.simps)
  show ?thesis
    using retry_notice_when_final_fails[OF h1 h2, of 1] h1 h2
    by (simp add: model_defs bk_ok_def no_error_def alice_def s_start_def bk_drop_err_def
        bk_drop_def broken_pipe_def f_info_def)
qed

text \<open>
  C1 as it is stated fails: with a library whose first command leaves the
  connection dropped and whose \<^verbatim>\<open>Final\<close> reports no error, the iteration finds
  the client dropped and emits no retry notice, and the whole call of
  \<^verbatim>\<open>p4runcb\<close>, which retries on a second client and succeeds, has emitted no
  event at all.
\<close>

theorem drop_without_retry_notice:
  "run_on bk_drop f_info alice (s_start\<lparr>tick := 4\<rparr>) =
     Inr (Continue, alice\<lparr>Dropped := True\<rparr>, s_start\<lparr>tick := 6\<rparr>)
   \<and> length (filter is_retry
        (drop (length (emitted (s_start\<lparr>tick := 4\<rparr>))) (emitted (s_start\<lparr>tick := 6\<rparr>)))) = 0
   \<and> p4runcb 2 bk_drop ''info'' [] [] [] [] 0 [] 7 False s_start =
     Inr (6,
          \<lparr>defaultPool = \<lparr>m_clients = [alice]\<rparr>, tagPool = \<lparr>m_clients = []\<rparr>, emitted = [],
           deleted = [alice\<lparr>Dropped := True\<rparr>], cerr = [], tick = 11\<rparr>)"
  by (simp add: p4runcb_def numeral_2_eq_2 model_defs bk_ok_def no_error_def alice_def
      s_start_def bk_drop_def f_info_def set_args.simps)

subsection \<open>The value returned\<close>







end
